theory Spec2Isabelle
  imports Complex_Main "HOL-Library.Multiset"
begin

section \<open>JavaScript strings\<close>

text \<open>
  A JavaScript string is modelled as a \<open>string\<close> whose characters are the code units
  0..255 (the Latin-1 range of Unicode). \<open>toLowerCase\<close>, \<open>trim\<close>, \<open>startsWith\<close>,
  \<open>includes\<close> and \<open>replace\<close> with a string pattern are the ECMAScript operations
  restricted to that range.
\<close>

definition is_upper :: "char \<Rightarrow> bool" where
  "is_upper c = (let n = (of_char c :: nat) in
     (65 \<le> n \<and> n \<le> 90) \<or> (192 \<le> n \<and> n \<le> 222 \<and> n \<noteq> 215))"

definition lower_char :: "char \<Rightarrow> char" where
  "lower_char c = (if is_upper c then char_of ((of_char c :: nat) + 32) else c)"

definition toLowerCase :: "string \<Rightarrow> string" where
  "toLowerCase s = map lower_char s"

definition is_lower_case :: "string \<Rightarrow> bool" where
  "is_lower_case s = list_all (\<lambda>c. \<not> is_upper c) s"

definition is_space :: "char \<Rightarrow> bool" where
  "is_space c = ((of_char c :: nat) \<in> {9, 10, 11, 12, 13, 32, 160})"

definition trim :: "string \<Rightarrow> string" where
  "trim s = rev (dropWhile is_space (rev (dropWhile is_space s)))"

fun startsWith :: "string \<Rightarrow> string \<Rightarrow> bool" where
  "startsWith s [] = True"
| "startsWith [] (p # ps) = False"
| "startsWith (c # cs) (p # ps) = (c = p \<and> startsWith cs ps)"

fun str_includes :: "string \<Rightarrow> string \<Rightarrow> bool" where
  "str_includes [] t = (t = [])"
| "str_includes (c # cs) t = (startsWith (c # cs) t \<or> str_includes cs t)"

text \<open>\<open>s.replace(".", "")\<close>: a string pattern replaces the first occurrence only.\<close>

fun replace_dot :: "string \<Rightarrow> string" where
  "replace_dot [] = []"
| "replace_dot (c # cs) = (if c = CHR ''.'' then cs else c # replace_dot cs)"

section \<open>JavaScript values and property lookup\<close>

datatype jsval = Undefined | Str string | Function string | ObjectPrototype | EmptyObject

definition truthy :: "jsval \<Rightarrow> bool" where
  "truthy v = (case v of Undefined \<Rightarrow> False | Str s \<Rightarrow> s \<noteq> [] | _ \<Rightarrow> True)"

definition js_or :: "jsval \<Rightarrow> jsval \<Rightarrow> jsval" where
  "js_or a b = (if truthy a then a else b)"

text \<open>
  The properties every object literal inherits from \<open>Object.prototype\<close> (ECMAScript,
  with the legacy accessors of Annex B that Node provides). Reading \<open>__proto__\<close> on
  an object literal gives \<open>Object.prototype\<close> itself.
\<close>

definition Object_prototype :: "(string \<times> jsval) list" where
  "Object_prototype =
    [(''constructor'', Function ''Object''),
     (''__defineGetter__'', Function ''__defineGetter__''),
     (''__defineSetter__'', Function ''__defineSetter__''),
     (''hasOwnProperty'', Function ''hasOwnProperty''),
     (''__lookupGetter__'', Function ''__lookupGetter__''),
     (''__lookupSetter__'', Function ''__lookupSetter__''),
     (''isPrototypeOf'', Function ''isPrototypeOf''),
     (''propertyIsEnumerable'', Function ''propertyIsEnumerable''),
     (''toString'', Function ''toString''),
     (''valueOf'', Function ''valueOf''),
     (''__proto__'', ObjectPrototype),
     (''toLocaleString'', Function ''toLocaleString'')]"

section \<open>Constants of build.js\<close>

definition IGNORE :: "string list" where
  "IGNORE = [''build.js'', ''serve.js'', ''index.html'', ''.DS_Store'', ''Thumbs.db'']"

definition PREVIEW :: "(string \<times> string) list" where
  "PREVIEW =
    [(''pdf'', ''pdf''),
     (''png'', ''image''),
     (''jpg'', ''image''),
     (''jpeg'', ''image''),
     (''webp'', ''image''),
     (''gif'', ''image''),
     (''svg'', ''image''),
     (''mp4'', ''video''),
     (''webm'', ''video''),
     (''mp3'', ''audio''),
     (''wav'', ''audio''),
     (''ogg'', ''audio''),
     (''html'', ''html''),
     (''htm'', ''html''),
     (''txt'', ''text''),
     (''md'', ''text'')]"

text \<open>
  \<open>PREVIEW[ext]\<close>: \<open>PREVIEW\<close> is an object literal, so a key that is not an own
  property is looked up on \<open>Object.prototype\<close> before the read gives \<open>undefined\<close>.
\<close>

definition PREVIEW_get :: "string \<Rightarrow> jsval" where
  "PREVIEW_get ext =
     (case map_of PREVIEW ext of
        Some k \<Rightarrow> Str k
      | None \<Rightarrow> (case map_of Object_prototype ext of Some v \<Rightarrow> v | None \<Rightarrow> Undefined))"

text \<open>The classification as \<open>main\<close> computes it: \<open>PREVIEW[ext] || "link"\<close>.\<close>

definition previewOf :: "string \<Rightarrow> jsval" where
  "previewOf ext = js_or (PREVIEW_get ext) (Str ''link'')"

text \<open>The seven preview kinds (the options of the kind selector).\<close>

definition kinds :: "string list" where
  "kinds = [''pdf'', ''image'', ''video'', ''audio'', ''html'', ''text'', ''link'']"

section \<open>\<open>path.extname\<close> and \<open>asExt\<close>\<close>

text \<open>
  \<open>path.extname\<close> belongs to Node, not to the repository; it is modelled after the POSIX
  implementation of Node's path module: one backwards scan over the path that records the
  last dot, the end and the start of the last path component.
\<close>

record ext_state =
  startDot :: int
  startPart :: int
  end_pos :: int
  matchedSlash :: bool
  preDotState :: int

fun extname_loop :: "string \<Rightarrow> nat \<Rightarrow> ext_state \<Rightarrow> ext_state" where
  "extname_loop path 0 st = st"
| "extname_loop path (Suc i) st =
     (let code = path ! i in
      if code = CHR ''/'' then
        (if \<not> matchedSlash st then st\<lparr>startPart := int i + 1\<rparr>
         else extname_loop path i st)
      else
        (let st1 = (if end_pos st = - 1
                    then st\<lparr>matchedSlash := False, end_pos := int i + 1\<rparr> else st);
             st2 = (if code = CHR ''.'' then
                      (if startDot st1 = - 1 then st1\<lparr>startDot := int i\<rparr>
                       else if preDotState st1 \<noteq> 1 then st1\<lparr>preDotState := 1\<rparr>
                       else st1)
                    else if startDot st1 \<noteq> - 1 then st1\<lparr>preDotState := - 1\<rparr>
                    else st1)
         in extname_loop path i st2))"

definition extname :: "string \<Rightarrow> string" where
  "extname path =
     (let st = extname_loop path (length path)
                 \<lparr>startDot = - 1, startPart = 0, end_pos = - 1,
                  matchedSlash = True, preDotState = 0\<rparr>
      in if startDot st = - 1 \<or> end_pos st = - 1 \<or> preDotState st = 0 \<or>
            (preDotState st = 1 \<and> startDot st = end_pos st - 1 \<and>
             startDot st = startPart st + 1)
         then []
         else take (nat (end_pos st) - nat (startDot st)) (drop (nat (startDot st)) path))"

definition asExt :: "string \<Rightarrow> string" where
  "asExt name = (let ext = replace_dot (toLowerCase (extname name))
                 in if ext \<noteq> [] then ext else [])"

text \<open>\<open>escapeHtml\<close> is declared by build.js; no call of it occurs in the file.\<close>

definition escape_char :: "char \<Rightarrow> string" where
  "escape_char ch =
     (if ch = CHR ''&'' then ''&amp;''
      else if ch = CHR ''<'' then ''&lt;''
      else if ch = CHR ''>'' then ''&gt;''
      else if ch = CHR 0x22 then ''&quot;''
      else if ch = CHR 0x27 then ''&#39;''
      else [ch])"

definition escapeHtml :: "string \<Rightarrow> string" where
  "escapeHtml s = concat (map escape_char s)"

section \<open>The generator: scanning, ordering, emitting\<close>

datatype dirent_kind =
  RegularFile | Directory | SymbolicLink | Socket | FIFO | BlockDevice | CharacterDevice

record dirent =
  d_name :: string
  d_kind :: dirent_kind

definition isFile :: "dirent \<Rightarrow> bool" where
  "isFile e = (d_kind e = RegularFile)"

text \<open>
  What \<open>fsp.stat\<close> reports: \<open>size\<close> is a byte count; \<open>mtimeMs\<close> is a JavaScript
  number of milliseconds that carries the sub-millisecond part of the file's time stamp,
  so it is a \<open>real\<close> here, not an integer.
\<close>

record stats =
  st_size :: nat
  st_mtimeMs :: real

record file_record =
  name :: string
  ext :: string
  size_bytes :: nat
  mtimeMs :: real
  preview :: jsval

datatype error = Errno string

text \<open>
  The file system as one run sees it: the result of listing the working directory, the
  result of \<open>stat\<close> on each entry name in it, and whether writing a file of a given name
  fails.
\<close>

record env =
  readdir :: "error + dirent list"
  stat :: "string \<Rightarrow> error + stats"
  writeFile :: "string \<Rightarrow> error option"

definition eligible :: "dirent \<Rightarrow> bool" where
  "eligible e = (isFile e \<and> d_name e \<notin> set IGNORE \<and> \<not> startsWith (d_name e) ''.'')"

definition mk_record :: "dirent \<Rightarrow> stats \<Rightarrow> file_record" where
  "mk_record e s =
     (let ext = asExt (d_name e)
      in \<lparr>name = d_name e, ext = ext, size_bytes = st_size s,
          mtimeMs = st_mtimeMs s, preview = previewOf ext\<rparr>)"

text \<open>
  The \<open>for (const e of entries)\<close> loop of \<open>main\<close>, with \<open>files\<close> as the accumulator. The
  awaited \<open>stat\<close> is not inside any \<open>try\<close>: its failure leaves the loop and \<open>main\<close>.
\<close>

fun scan_loop :: "(string \<Rightarrow> error + stats) \<Rightarrow> dirent list \<Rightarrow> file_record list
    \<Rightarrow> error + file_record list" where
  "scan_loop st [] files = Inr files"
| "scan_loop st (e # es) files =
     (if \<not> isFile e then scan_loop st es files
      else if d_name e \<in> set IGNORE then scan_loop st es files
      else if startsWith (d_name e) ''.'' then scan_loop st es files
      else (case st (d_name e) of
              Inl err \<Rightarrow> Inl err
            | Inr s \<Rightarrow> scan_loop st es (files @ [mk_record e s])))"

text \<open>
  \<open>Array.prototype.sort\<close> with a comparator: a stable sort, written as insertion from the
  right. An element goes in front of the first later element it does not compare greater
  than, so elements that compare equal keep their order.
\<close>

fun js_insert :: "('a \<Rightarrow> 'a \<Rightarrow> real) \<Rightarrow> 'a \<Rightarrow> 'a list \<Rightarrow> 'a list" where
  "js_insert cmp x [] = [x]"
| "js_insert cmp x (y # ys) = (if cmp x y \<le> 0 then x # y # ys else y # js_insert cmp x ys)"

fun js_sort :: "('a \<Rightarrow> 'a \<Rightarrow> real) \<Rightarrow> 'a list \<Rightarrow> 'a list" where
  "js_sort cmp [] = []"
| "js_sort cmp (x # xs) = js_insert cmp x (js_sort cmp xs)"

text \<open>
  \<open>JSON.stringify\<close> followed by the browser reading the literal back: a property whose
  value is a function or \<open>undefined\<close> is left out (and reads as \<open>undefined\<close>), and
  \<open>Object.prototype\<close>, which has no enumerable property, comes back as an empty object.
  Strings and numbers come back as they were.
\<close>

definition json_value :: "jsval \<Rightarrow> jsval" where
  "json_value v = (case v of Function f \<Rightarrow> Undefined | ObjectPrototype \<Rightarrow> EmptyObject | _ \<Rightarrow> v)"

definition JSON_stringify :: "file_record list \<Rightarrow> file_record list" where
  "JSON_stringify files = map (\<lambda>f. f\<lparr>preview := json_value (preview f)\<rparr>) files"

text \<open>The emitted document: the template is fixed, only the embedded data vary.\<close>

record document =
  dataJson :: "file_record list"

fun digits :: "nat \<Rightarrow> string" where
  "digits n = (if n < 10 then [char_of (48 + n)]
               else digits (n div 10) @ [char_of (48 + n mod 10)])"

declare digits.simps [simp del]

text \<open>The line on standard output, in UTF-8; its first three bytes are the check mark.\<close>

definition success_line :: "nat \<Rightarrow> string" where
  "success_line n =
     [CHR 0xE2, CHR 0x9C, CHR 0x85] @ '' index.html gerado com '' @ digits n @ '' arquivo(s).''"

text \<open>
  What \<open>main\<close> did when it settled: the error it rejected with, the lines it logged and
  the calls of \<open>writeFile\<close> it made.
\<close>

record main_result =
  thrown :: "error option"
  logged :: "string list"
  writes :: "(string \<times> document) list"

definition main :: "env \<Rightarrow> main_result" where
  "main fs =
     (case readdir fs of
        Inl err \<Rightarrow> \<lparr>thrown = Some err, logged = [], writes = []\<rparr>
      | Inr entries \<Rightarrow>
          (case scan_loop (stat fs) entries [] of
             Inl err \<Rightarrow> \<lparr>thrown = Some err, logged = [], writes = []\<rparr>
           | Inr files0 \<Rightarrow>
               (let files = js_sort (\<lambda>a b. mtimeMs b - mtimeMs a) files0;
                    html = \<lparr>dataJson = JSON_stringify files\<rparr>
                in case writeFile fs ''index.html'' of
                     Some err \<Rightarrow>
                       \<lparr>thrown = Some err, logged = [], writes = [(''index.html'', html)]\<rparr>
                   | None \<Rightarrow>
                       \<lparr>thrown = None, logged = [success_line (length files)],
                        writes = [(''index.html'', html)]\<rparr>)))"

text \<open>
  The process: \<open>main().catch(err => { console.error(err); process.exit(1) })\<close>. A run
  whose \<open>main\<close> settles without an error ends with exit code 0.
\<close>

record outcome =
  exit_code :: nat
  stdout :: "string list"
  stderr :: "error list"
  written :: "(string \<times> document) list"

definition run :: "env \<Rightarrow> outcome" where
  "run fs =
     (let r = main fs
      in case thrown r of
           Some err \<Rightarrow> \<lparr>exit_code = 1, stdout = logged r, stderr = [err], written = writes r\<rparr>
         | None \<Rightarrow> \<lparr>exit_code = 0, stdout = logged r, stderr = [], written = writes r\<rparr>)"

section \<open>The client script of the emitted document\<close>

text \<open>
  \<open>localeCompare\<close> with the locale \<open>pt-BR\<close> belongs to the browser; the comparison
  is a parameter \<open>lc\<close> of the model.
\<close>

definition comparator :: "(string \<Rightarrow> string \<Rightarrow> real) \<Rightarrow> string \<Rightarrow> file_record \<Rightarrow> file_record \<Rightarrow> real" where
  "comparator lc sorter a b =
     (if sorter = ''mtime-asc'' then mtimeMs a - mtimeMs b
      else if sorter = ''mtime-desc'' then mtimeMs b - mtimeMs a
      else if sorter = ''name-asc'' then lc (name a) (name b)
      else if sorter = ''name-desc'' then lc (name b) (name a)
      else if sorter = ''size-asc'' then real (size_bytes a) - real (size_bytes b)
      else if sorter = ''size-desc'' then real (size_bytes b) - real (size_bytes a)
      else 0)"

text \<open>The predicate of the kind filter, \<open>k === 'image' ? f.preview === 'image' : f.preview === k\<close>.\<close>

definition kind_pred :: "string \<Rightarrow> file_record \<Rightarrow> bool" where
  "kind_pred k f = (if k = ''image'' then preview f = Str ''image'' else preview f = Str k)"

text \<open>The same filter written as the plain equality \<open>f.preview === k\<close>.\<close>

definition kind_pred_plain :: "string \<Rightarrow> file_record \<Rightarrow> bool" where
  "kind_pred_plain k f = (preview f = Str k)"

definition text_filter :: "string \<Rightarrow> file_record list \<Rightarrow> file_record list" where
  "text_filter q_value items =
     (let term = trim (toLowerCase (if q_value \<noteq> [] then q_value else []))
      in if term \<noteq> []
         then filter (\<lambda>f. str_includes (toLowerCase (name f)) term \<or>
                          str_includes (toLowerCase (ext f)) term) items
         else items)"

definition kind_filter :: "string \<Rightarrow> file_record list \<Rightarrow> file_record list" where
  "kind_filter k items = (if k \<noteq> [] then filter (kind_pred k) items else items)"

definition sort_items :: "(string \<Rightarrow> string \<Rightarrow> real) \<Rightarrow> string \<Rightarrow> file_record list \<Rightarrow> file_record list" where
  "sort_items lc sorter items = js_sort (comparator lc sorter) items"

text \<open>\<open>applyFilters\<close>: the list handed to \<open>render\<close>.\<close>

definition applyFilters ::
    "(string \<Rightarrow> string \<Rightarrow> real) \<Rightarrow> string \<Rightarrow> string \<Rightarrow> string \<Rightarrow> file_record list \<Rightarrow> file_record list" where
  "applyFilters lc q_value kind_value sort_value FILES =
     sort_items lc sort_value (kind_filter kind_value (text_filter q_value FILES))"

text \<open>
  The markup \<open>render\<close> assigns to \<open>meta.innerHTML\<close> for one record. \<open>rest\<close> stands for
  the text after the chip, the separators with the formatted size and date.
\<close>

definition meta_innerHTML :: "file_record \<Rightarrow> string \<Rightarrow> string" where
  \<open>meta_innerHTML f rest =
     ''<span class="chip">'' @ (if ext f \<noteq> [] then ext f else ''sem extens'' @ [CHR 0xE3] @ ''o'')
       @ ''</span>'' @ rest\<close>

text \<open>The claim of the specification about the text filter, in its own words.\<close>

definition spec_passes_text :: "string \<Rightarrow> file_record \<Rightarrow> bool" where
  "spec_passes_text q f =
     (q = [] \<or> str_includes (toLowerCase (name f)) (toLowerCase q)
             \<or> str_includes (toLowerCase (ext f)) (toLowerCase q))"

text \<open>
  What it takes for the parameter \<open>lc\<close> to order a set of names: it is antisymmetric and
  transitive there, and distinct names never compare equal.
\<close>

definition orders_names :: "(string \<Rightarrow> string \<Rightarrow> real) \<Rightarrow> string set \<Rightarrow> bool" where
  "orders_names lc N =
     ((\<forall>a\<in>N. \<forall>b\<in>N. sgn (lc a b) = - sgn (lc b a)) \<and>
      (\<forall>a\<in>N. \<forall>b\<in>N. \<forall>c\<in>N. lc a b \<le> 0 \<longrightarrow> lc b c \<le> 0 \<longrightarrow> lc a c \<le> 0) \<and>
      (\<forall>a\<in>N. \<forall>b\<in>N. lc a b = 0 \<longrightarrow> a = b))"

section \<open>Example directories and records\<close>

definition file_entry :: "string \<Rightarrow> dirent" where
  "file_entry n = \<lparr>d_name = n, d_kind = RegularFile\<rparr>"

text \<open>A directory in which \<open>a.txt\<close> vanishes between the listing and its \<open>stat\<close>.\<close>

definition fs_vanished :: env where
  "fs_vanished =
     \<lparr>readdir = Inr [file_entry ''a.txt'', file_entry ''b.txt''],
      stat = (\<lambda>n. if n = ''a.txt'' then Inl (Errno ''ENOENT'')
                   else Inr \<lparr>st_size = 10, st_mtimeMs = 5\<rparr>),
      writeFile = (\<lambda>n. None)\<rparr>"

text \<open>A directory that cannot be listed.\<close>

definition fs_unreadable :: env where
  "fs_unreadable =
     \<lparr>readdir = Inl (Errno ''EACCES''),
      stat = (\<lambda>n. Inl (Errno ''ENOENT'')),
      writeFile = (\<lambda>n. None)\<rparr>"

text \<open>The directory of the specification's scenario, with a subdirectory added.\<close>

definition fs_scenario :: env where
  "fs_scenario =
     \<lparr>readdir = Inr [file_entry ''report.pdf'', file_entry ''photo.PNG'',
                     file_entry ''.hidden'', file_entry ''index.html'',
                     \<lparr>d_name = ''sub'', d_kind = Directory\<rparr>],
      stat = (\<lambda>n. if n = ''report.pdf'' then Inr \<lparr>st_size = 2048, st_mtimeMs = 1000\<rparr>
                   else if n = ''photo.PNG'' then Inr \<lparr>st_size = 500000, st_mtimeMs = 2000\<rparr>
                   else Inr \<lparr>st_size = 1, st_mtimeMs = 3000\<rparr>),
      writeFile = (\<lambda>n. None)\<rparr>"

text \<open>A directory with one file, whose extension is \<open>constructor\<close> and whose time stamp
  has a fractional part.\<close>

definition fs_constructor :: env where
  "fs_constructor =
     \<lparr>readdir = Inr [file_entry ''x.constructor''],
      stat = (\<lambda>n. Inr \<lparr>st_size = 10, st_mtimeMs = 3400000000001 / 2\<rparr>),
      writeFile = (\<lambda>n. None)\<rparr>"

text \<open>The document a run in the scenario's directory writes: the newer file first.\<close>

definition doc_scenario :: document where
  "doc_scenario =
     \<lparr>dataJson = JSON_stringify
        [mk_record (file_entry ''photo.PNG'') \<lparr>st_size = 500000, st_mtimeMs = 2000\<rparr>,
         mk_record (file_entry ''report.pdf'') \<lparr>st_size = 2048, st_mtimeMs = 1000\<rparr>]\<rparr>"

definition rec_notes :: file_record where
  "rec_notes = \<lparr>name = ''a.txt'', ext = ''txt'', size_bytes = 10, mtimeMs = 5,
                preview = Str ''text''\<rparr>"

definition three_records :: "file_record list" where
  "three_records =
     [\<lparr>name = ''bb'', ext = [], size_bytes = 30, mtimeMs = 7, preview = Str ''link''\<rparr>,
      \<lparr>name = ''a'', ext = [], size_bytes = 10, mtimeMs = 9, preview = Str ''link''\<rparr>,
      \<lparr>name = ''ccc'', ext = [], size_bytes = 20, mtimeMs = 8, preview = Str ''link''\<rparr>]"

text \<open>
  A comparison with the property of \<open>localeCompare\<close> that matters for two distinct names
  comparing equal: characters the collation ignores do not count. Here the soft hyphen
  (code unit 0xAD) is dropped and what remains is compared code unit by code unit.
\<close>

fun cmp_units :: "string \<Rightarrow> string \<Rightarrow> real" where
  "cmp_units [] [] = 0"
| "cmp_units [] (b # bs) = - 1"
| "cmp_units (a # as) [] = 1"
| "cmp_units (a # as) (b # bs) =
     (if (of_char a :: nat) < of_char b then - 1
      else if (of_char b :: nat) < of_char a then 1
      else cmp_units as bs)"

definition lc_ign :: "string \<Rightarrow> string \<Rightarrow> real" where
  "lc_ign a b = cmp_units (filter (\<lambda>c. c \<noteq> CHR 0xAD) a) (filter (\<lambda>c. c \<noteq> CHR 0xAD) b)"

text \<open>Two records whose names differ in a soft hyphen only.\<close>

definition two_records :: "file_record list" where
  "two_records =
     [\<lparr>name = ''a'', ext = [], size_bytes = 1, mtimeMs = 1, preview = Str ''link''\<rparr>,
      \<lparr>name = [CHR ''a'', CHR 0xAD], ext = [], size_bytes = 2, mtimeMs = 2,
        preview = Str ''link''\<rparr>]"

text \<open>A stand-in for the locale's comparison in examples: shorter names first.\<close>

definition by_length :: "string \<Rightarrow> string \<Rightarrow> real" where
  "by_length a b = real (length a) - real (length b)"

section \<open>Lemmas about the string operations\<close>

lemma lower_char_not_upper: "\<not> is_upper (lower_char c)"
proof (cases "is_upper c")
  case False
  then show ?thesis by (simp add: lower_char_def)
next
  case True
  then have r: "(65 \<le> (of_char c :: nat) \<and> (of_char c :: nat) \<le> 90) \<or>
      (192 \<le> (of_char c :: nat) \<and> (of_char c :: nat) \<le> 222)"
    by (auto simp: is_upper_def Let_def)
  then have "(of_char c :: nat) + 32 < 256" by auto
  then have "(of_char (char_of ((of_char c :: nat) + 32)) :: nat) = of_char c + 32"
    by (simp add: of_char_of)
  with r True show ?thesis
    by (auto simp: lower_char_def is_upper_def Let_def)
qed

lemma is_lower_case_toLowerCase: "is_lower_case (toLowerCase s)"
  by (induction s) (simp_all add: is_lower_case_def toLowerCase_def lower_char_not_upper)

lemma is_lower_case_replace_dot: "is_lower_case s \<Longrightarrow> is_lower_case (replace_dot s)"
  by (induction s) (simp_all add: is_lower_case_def)

lemma is_lower_case_asExt: "is_lower_case (asExt n)"
  by (simp add: asExt_def Let_def is_lower_case_replace_dot is_lower_case_toLowerCase)
    (simp add: is_lower_case_def)

section \<open>Lemmas about the classification\<close>

lemma map_of_PREVIEW_kinds: "map_of PREVIEW x = Some k \<Longrightarrow> k \<in> set kinds"
  by (simp add: PREVIEW_def kinds_def split: if_splits)

lemma map_of_PREVIEW_nonempty: "map_of PREVIEW x = Some k \<Longrightarrow> k \<noteq> []"
  by (auto simp: PREVIEW_def split: if_splits)

lemma Object_prototype_keys_lower:
  "\<forall>k \<in> set (map fst Object_prototype). is_lower_case k \<longrightarrow> k = ''constructor'' \<or> k = ''__proto__''"
  by (simp add: Object_prototype_def is_lower_case_def is_upper_def)

lemma Object_prototype_lower:
  assumes "map_of Object_prototype x = Some v" and "is_lower_case x"
  shows "x = ''constructor'' \<or> x = ''__proto__''"
proof -
  from assms(1) have "x \<in> set (map fst Object_prototype)"
    by (force dest: map_of_SomeD)
  with Object_prototype_keys_lower assms(2) show ?thesis by blast
qed

lemma previewOf_kinds:
  assumes "is_lower_case x" and "x \<noteq> ''constructor''" and "x \<noteq> ''__proto__''"
  shows "\<exists>k \<in> set kinds. previewOf x = Str k"
proof (cases "map_of PREVIEW x")
  case (Some k)
  then show ?thesis
    using map_of_PREVIEW_kinds [OF Some] map_of_PREVIEW_nonempty [OF Some]
    by (simp add: previewOf_def PREVIEW_get_def js_or_def truthy_def)
next
  case None
  have "map_of Object_prototype x = None"
  proof (rule ccontr)
    assume "map_of Object_prototype x \<noteq> None"
    then obtain v where "map_of Object_prototype x = Some v" by auto
    from Object_prototype_lower [OF this assms(1)] assms(2,3) show False by simp
  qed
  with None show ?thesis
    by (simp add: previewOf_def PREVIEW_get_def js_or_def truthy_def kinds_def)
qed

section \<open>Lemmas about the scanning loop\<close>

lemma scan_loop_Inr:
  "scan_loop st es acc = Inr fs \<Longrightarrow>
     fs = acc @ map (\<lambda>e. mk_record e (projr (st (d_name e)))) (filter eligible es)
     \<and> (\<forall>e \<in> set es. eligible e \<longrightarrow> (\<exists>s. st (d_name e) = Inr s))"
proof (induction es arbitrary: acc)
  case Nil
  then show ?case by simp
next
  case (Cons e es)
  show ?case
  proof (cases "eligible e")
    case False
    then have "scan_loop st (e # es) acc = scan_loop st es acc"
      by (auto simp: eligible_def)
    with Cons False show ?thesis by auto
  next
    case True
    then have el: "isFile e" "d_name e \<notin> set IGNORE" "\<not> startsWith (d_name e) ''.''"
      by (auto simp: eligible_def)
    show ?thesis
    proof (cases "st (d_name e)")
      case (Inl err)
      with el Cons.prems show ?thesis by simp
    next
      case (Inr s)
      with el Cons.prems have "scan_loop st es (acc @ [mk_record e s]) = Inr fs" by simp
      from Cons.IH [OF this] True Inr show ?thesis by auto
    qed
  qed
qed

lemma scan_loop_ok:
  "\<forall>e \<in> set es. eligible e \<longrightarrow> (\<exists>s. st (d_name e) = Inr s) \<Longrightarrow>
     scan_loop st es acc =
       Inr (acc @ map (\<lambda>e. mk_record e (projr (st (d_name e)))) (filter eligible es))"
proof (induction es arbitrary: acc)
  case Nil
  then show ?case by simp
next
  case (Cons e es)
  show ?case
  proof (cases "eligible e")
    case False
    then have "scan_loop st (e # es) acc = scan_loop st es acc"
      by (auto simp: eligible_def)
    with Cons False show ?thesis by auto
  next
    case True
    then have el: "isFile e" "d_name e \<notin> set IGNORE" "\<not> startsWith (d_name e) ''.''"
      by (auto simp: eligible_def)
    from Cons.prems True obtain s where s: "st (d_name e) = Inr s" by auto
    with el have "scan_loop st (e # es) acc = scan_loop st es (acc @ [mk_record e s])" by simp
    also have "\<dots> = Inr ((acc @ [mk_record e s]) @
        map (\<lambda>e. mk_record e (projr (st (d_name e)))) (filter eligible es))"
      using Cons.prems by (intro Cons.IH) auto
    finally show ?thesis using True s by simp
  qed
qed

lemma scan_loop_fail:
  "e \<in> set es \<Longrightarrow> eligible e \<Longrightarrow> st (d_name e) = Inl err \<Longrightarrow>
     \<exists>err'. scan_loop st es acc = Inl err'"
proof (cases "scan_loop st es acc")
  case (Inr fs)
  assume "e \<in> set es" "eligible e" "st (d_name e) = Inl err"
  with scan_loop_Inr [OF Inr] show ?thesis by auto
qed auto

section \<open>Lemmas about the sort\<close>

lemma mset_js_insert: "mset (js_insert cmp x xs) = add_mset x (mset xs)"
  by (induction xs) simp_all

lemma mset_js_sort: "mset (js_sort cmp xs) = mset xs"
  by (induction xs) (simp_all add: mset_js_insert)

lemma set_js_sort: "set (js_sort cmp xs) = set xs"
  using mset_js_sort [of cmp xs] by (metis set_mset_mset)

lemma length_js_sort: "length (js_sort cmp xs) = length xs"
  using mset_js_sort [of cmp xs] by (metis size_mset)

lemma set_js_insert: "set (js_insert cmp x xs) = insert x (set xs)"
  by (induction xs) auto

lemma sorted_js_insert:
  assumes tot: "\<forall>a\<in>A. \<forall>b\<in>A. cmp a b \<le> 0 \<or> cmp b a \<le> 0"
    and trans: "\<forall>a\<in>A. \<forall>b\<in>A. \<forall>c\<in>A. cmp a b \<le> 0 \<longrightarrow> cmp b c \<le> 0 \<longrightarrow> cmp a c \<le> 0"
  shows "x \<in> A \<Longrightarrow> set xs \<subseteq> A \<Longrightarrow> sorted_wrt (\<lambda>a b. cmp a b \<le> 0) xs \<Longrightarrow>
           sorted_wrt (\<lambda>a b. cmp a b \<le> 0) (js_insert cmp x xs)"
proof (induction xs)
  case Nil
  then show ?case by simp
next
  case (Cons y ys)
  show ?case
  proof (cases "cmp x y \<le> 0")
    case True
    have "cmp x z \<le> 0" if "z \<in> set ys" for z
    proof -
      from Cons.prems that have "cmp y z \<le> 0" "z \<in> A" "y \<in> A" by auto
      with True Cons.prems(1) trans show ?thesis by blast
    qed
    with True Cons.prems show ?thesis by auto
  next
    case False
    with tot Cons.prems have yx: "cmp y x \<le> 0" by auto
    from Cons have "sorted_wrt (\<lambda>a b. cmp a b \<le> 0) (js_insert cmp x ys)" by simp
    with False yx Cons.prems show ?thesis by (auto simp: set_js_insert)
  qed
qed

lemma sorted_js_sort:
  assumes tot: "\<forall>a\<in>A. \<forall>b\<in>A. cmp a b \<le> 0 \<or> cmp b a \<le> 0"
    and trans: "\<forall>a\<in>A. \<forall>b\<in>A. \<forall>c\<in>A. cmp a b \<le> 0 \<longrightarrow> cmp b c \<le> 0 \<longrightarrow> cmp a c \<le> 0"
  shows "set xs \<subseteq> A \<Longrightarrow> sorted_wrt (\<lambda>a b. cmp a b \<le> 0) (js_sort cmp xs)"
proof (induction xs)
  case Nil
  then show ?case by simp
next
  case (Cons x xs)
  then have "sorted_wrt (\<lambda>a b. cmp a b \<le> 0) (js_sort cmp xs)" by simp
  moreover have "set (js_sort cmp xs) \<subseteq> A" using Cons.prems by (simp add: set_js_sort)
  moreover have "x \<in> A" using Cons.prems by simp
  ultimately show ?case
    using sorted_js_insert [OF tot trans, of x "js_sort cmp xs"] by simp
qed

lemma sorted_wrt_unique:
  assumes anti: "\<And>a b. a \<in> A \<Longrightarrow> b \<in> A \<Longrightarrow> R a b \<Longrightarrow> R b a \<Longrightarrow> a = b"
  shows "sorted_wrt R xs \<Longrightarrow> sorted_wrt R ys \<Longrightarrow> mset xs = mset ys \<Longrightarrow> set xs \<subseteq> A \<Longrightarrow>
           xs = ys"
proof (induction xs arbitrary: ys)
  case Nil
  then show ?case by simp
next
  case (Cons x xs)
  then obtain y ys' where ys: "ys = y # ys'" by (cases ys) auto
  have sets: "set (x # xs) = set (y # ys')"
    using Cons.prems(3) ys by (metis set_mset_mset)
  have "x = y"
  proof (rule ccontr)
    assume ne: "x \<noteq> y"
    with sets have "x \<in> set ys'" "y \<in> set xs" by auto
    with Cons.prems(1,2) ys have "R y x" "R x y" by auto
    moreover have "x \<in> A" "y \<in> A" using Cons.prems(4) \<open>y \<in> set xs\<close> by auto
    ultimately show False using anti ne by blast
  qed
  with Cons.prems ys have "xs = ys'" by (intro Cons.IH) auto
  with \<open>x = y\<close> ys show ?case by simp
qed

section \<open>Lemmas about a run\<close>

lemma run_readdir_fail:
  "readdir fs = Inl err \<Longrightarrow> run fs = \<lparr>exit_code = 1, stdout = [], stderr = [err], written = []\<rparr>"
  by (simp add: run_def main_def)

lemma run_scan_fail:
  "readdir fs = Inr entries \<Longrightarrow> scan_loop (stat fs) entries [] = Inl err \<Longrightarrow>
     run fs = \<lparr>exit_code = 1, stdout = [], stderr = [err], written = []\<rparr>"
  by (simp add: run_def main_def)

lemma run_scan_ok:
  "readdir fs = Inr entries \<Longrightarrow> scan_loop (stat fs) entries [] = Inr files0 \<Longrightarrow>
     written (run fs) =
       [(''index.html'', \<lparr>dataJson = JSON_stringify (js_sort (\<lambda>a b. mtimeMs b - mtimeMs a) files0)\<rparr>)]"
  by (simp add: run_def main_def Let_def split: option.splits)

lemma run_success:
  "readdir fs = Inr entries \<Longrightarrow> scan_loop (stat fs) entries [] = Inr files0 \<Longrightarrow>
   writeFile fs ''index.html'' = None \<Longrightarrow>
     run fs = \<lparr>exit_code = 0,
               stdout = [success_line (length (js_sort (\<lambda>a b. mtimeMs b - mtimeMs a) files0))],
               stderr = [],
               written = [(''index.html'',
                 \<lparr>dataJson = JSON_stringify (js_sort (\<lambda>a b. mtimeMs b - mtimeMs a) files0)\<rparr>)]\<rparr>"
  by (simp add: run_def main_def Let_def)

lemma written_cases:
  assumes "(fname, doc) \<in> set (written (run fs))"
  obtains entries where "readdir fs = Inr entries"
    and "\<forall>e \<in> set entries. eligible e \<longrightarrow> (\<exists>s. stat fs (d_name e) = Inr s)"
    and "fname = ''index.html''"
    and "dataJson doc = JSON_stringify (js_sort (\<lambda>a b. mtimeMs b - mtimeMs a)
           (map (\<lambda>e. mk_record e (projr (stat fs (d_name e)))) (filter eligible entries)))"
proof (cases "readdir fs")
  case (Inl err)
  with assms show ?thesis by (simp add: run_readdir_fail)
next
  case (Inr entries)
  show ?thesis
  proof (cases "scan_loop (stat fs) entries []")
    case (Inl err)
    with Inr assms show ?thesis by (simp add: run_scan_fail)
  next
    case Inr2: (Inr files0)
    from scan_loop_Inr [OF Inr2] have
      f0: "files0 = map (\<lambda>e. mk_record e (projr (stat fs (d_name e)))) (filter eligible entries)"
      and ok: "\<forall>e \<in> set entries. eligible e \<longrightarrow> (\<exists>s. stat fs (d_name e) = Inr s)"
      by simp_all
    from assms run_scan_ok [OF Inr Inr2] f0 have "fname = ''index.html''"
      "dataJson doc = JSON_stringify (js_sort (\<lambda>a b. mtimeMs b - mtimeMs a)
           (map (\<lambda>e. mk_record e (projr (stat fs (d_name e)))) (filter eligible entries)))"
      by auto
    with Inr ok that show ?thesis by blast
  qed
qed

lemmas example_simps = file_entry_def eligible_def isFile_def IGNORE_def

lemma asExt_img: "asExt ''x.<img src=x onerror=alert(1)>'' = ''<img src=x onerror=alert(1)>''"
  by code_simp

lemma asExt_photo: "asExt ''photo.PNG'' = ''png''"
  by code_simp

lemma asExt_constructor: "asExt ''x.constructor'' = ''constructor''"
  by code_simp

section \<open>A failing \<open>stat\<close>\<close>

text \<open>
  Claim C1, as the code has it: when \<open>stat\<close> fails on an entry that passed the three
  filters of the loop, the run does not go on. It ends with exit code 1, reports one
  error, logs no success line and never calls \<open>writeFile\<close>, so no document is produced.
\<close>

theorem stat_failure_aborts_run:
  assumes "readdir fs = Inr entries" and "e \<in> set entries" and "eligible e"
    and "stat fs (d_name e) = Inl err"
  shows "exit_code (run fs) = 1 \<and> written (run fs) = [] \<and> stdout (run fs) = [] \<and>
         (\<exists>err'. stderr (run fs) = [err'])"
proof -
  from scan_loop_fail [where st = "stat fs" and acc = "[]", OF assms(2,3,4)] obtain err'
    where "scan_loop (stat fs) entries [] = Inl err'" by blast
  from run_scan_fail [OF assms(1) this] show ?thesis by simp
qed

theorem stat_failure_aborts_run_witness:
  "readdir fs_vanished = Inr [file_entry ''a.txt'', file_entry ''b.txt''] \<and>
   file_entry ''a.txt'' \<in> set [file_entry ''a.txt'', file_entry ''b.txt''] \<and>
   eligible (file_entry ''a.txt'') \<and>
   stat fs_vanished (d_name (file_entry ''a.txt'')) = Inl (Errno ''ENOENT'') \<and>
   exit_code (run fs_vanished) = 1 \<and> written (run fs_vanished) = [] \<and>
   stdout (run fs_vanished) = [] \<and> (\<exists>err'. stderr (run fs_vanished) = [err'])"
proof -
  have 1: "readdir fs_vanished = Inr [file_entry ''a.txt'', file_entry ''b.txt'']"
    by (simp add: fs_vanished_def)
  have 2: "file_entry ''a.txt'' \<in> set [file_entry ''a.txt'', file_entry ''b.txt'']"
    by simp
  have 3: "eligible (file_entry ''a.txt'')"
    by (simp add: example_simps)
  have 4: "stat fs_vanished (d_name (file_entry ''a.txt'')) = Inl (Errno ''ENOENT'')"
    by (simp add: fs_vanished_def file_entry_def)
  from stat_failure_aborts_run [OF 1 2 3 4] 1 2 3 4 show ?thesis by simp
qed

text \<open>
  Claim C1 as stated fails: in a directory where \<open>a.txt\<close> is listed as a regular file
  and its \<open>stat\<close> then fails with \<open>ENOENT\<close>, the entry is not dropped with the run going
  on; the run ends with exit code 1 and writes nothing, although \<open>b.txt\<close> is intact.
\<close>

theorem stat_failure_counterexample:
  "readdir fs_vanished = Inr [file_entry ''a.txt'', file_entry ''b.txt''] \<and>
   eligible (file_entry ''a.txt'') \<and>
   stat fs_vanished ''a.txt'' = Inl (Errno ''ENOENT'') \<and>
   run fs_vanished = \<lparr>exit_code = 1, stdout = [], stderr = [Errno ''ENOENT''], written = []\<rparr>"
  by (simp add: fs_vanished_def example_simps run_def main_def)

section \<open>Escaping of record fields in markup\<close>

text \<open>
  Claim C2 at the file name \<open>x.<img src=x onerror=alert(1)>\<close>: the extension of the
  record is the tag itself, and the markup assigned to \<open>meta.innerHTML\<close> carries it
  unescaped inside the chip, where \<open>escapeHtml\<close> would have produced the entity form.
\<close>

theorem meta_innerHTML_unescaped:
  \<open>asExt ''x.<img src=x onerror=alert(1)>'' = ''<img src=x onerror=alert(1)>'' \<and>
   meta_innerHTML (mk_record (file_entry ''x.<img src=x onerror=alert(1)>'')
                     \<lparr>st_size = 10, st_mtimeMs = 5\<rparr>) []
     = ''<span class="chip"><img src=x onerror=alert(1)></span>'' \<and>
   escapeHtml ''<img src=x onerror=alert(1)>'' = ''&lt;img src=x onerror=alert(1)&gt;''\<close>
  by (simp add: meta_innerHTML_def mk_record_def Let_def file_entry_def asExt_img
      escapeHtml_def escape_char_def)

section \<open>The classification\<close>

text \<open>
  Claim C3 at the extension \<open>constructor\<close>: it is not a key of the mapping table, yet
  the lookup finds the inherited \<open>constructor\<close> property, which is truthy, so the
  fallback to \<open>link\<close> is not taken and the result is none of the seven kinds.
\<close>

theorem previewOf_constructor:
  "map_of PREVIEW ''constructor'' = None \<and>
   previewOf ''constructor'' = Function ''Object'' \<and>
   previewOf ''constructor'' \<notin> Str ` set kinds"
  by (simp add: previewOf_def PREVIEW_get_def PREVIEW_def Object_prototype_def js_or_def
      truthy_def kinds_def image_iff)

section \<open>The kind filter\<close>

text \<open>
  Claim C10: the predicate of the kind filter with its special case for \<open>image\<close> is the
  plain equality \<open>f.preview === k\<close>, for every selection \<open>k\<close> (the non-empty ones
  among them) and every record \<open>f\<close>.
\<close>

theorem kind_pred_is_plain_equality: "kind_pred k f = kind_pred_plain k f"
  by (simp add: kind_pred_def kind_pred_plain_def)

section \<open>Lemmas about records, documents and the generation-time order\<close>

lemma name_mk_record [simp]: "name (mk_record e s) = d_name e"
  by (simp add: mk_record_def Let_def)

lemma ext_mk_record [simp]: "ext (mk_record e s) = asExt (d_name e)"
  by (simp add: mk_record_def Let_def)

lemma mtimeMs_mk_record [simp]: "mtimeMs (mk_record e s) = st_mtimeMs s"
  by (simp add: mk_record_def Let_def)

lemma size_bytes_mk_record [simp]: "size_bytes (mk_record e s) = st_size s"
  by (simp add: mk_record_def Let_def)

lemma preview_mk_record [simp]: "preview (mk_record e s) = previewOf (asExt (d_name e))"
  by (simp add: mk_record_def Let_def)

lemma length_JSON_stringify [simp]: "length (JSON_stringify fs) = length fs"
  by (simp add: JSON_stringify_def)

lemma map_name_JSON_stringify [simp]: "map name (JSON_stringify fs) = map name fs"
  by (simp add: JSON_stringify_def)

lemma map_mtimeMs_JSON_stringify [simp]: "map mtimeMs (JSON_stringify fs) = map mtimeMs fs"
  by (simp add: JSON_stringify_def)

lemma json_value_Str [simp]: "json_value (Str k) = Str k"
  by (simp add: json_value_def)

lemma sorted_mtime_desc:
  "sorted_wrt (\<lambda>a b. mtimeMs b \<le> mtimeMs a) (js_sort (\<lambda>a b. mtimeMs b - mtimeMs a) xs)"
proof -
  have "sorted_wrt (\<lambda>a b. mtimeMs b - mtimeMs a \<le> 0) (js_sort (\<lambda>a b. mtimeMs b - mtimeMs a) xs)"
    by (rule sorted_js_sort [where A = UNIV]) auto
  then show ?thesis by simp
qed

lemma run_scenario:
  "run fs_scenario =
     \<lparr>exit_code = 0, stdout = [success_line 2], stderr = [],
      written = [(''index.html'', doc_scenario)]\<rparr>"
  by (simp add: run_def main_def fs_scenario_def doc_scenario_def example_simps Let_def
      numeral_2_eq_2)

lemma entries_scenario:
  "readdir fs_scenario = Inr [file_entry ''report.pdf'', file_entry ''photo.PNG'',
     file_entry ''.hidden'', file_entry ''index.html'', \<lparr>d_name = ''sub'', d_kind = Directory\<rparr>]"
  by (simp add: fs_scenario_def)

lemma count_names_eligible:
  assumes "distinct (map d_name entries)" and "e \<in> set entries"
  shows "count (mset (map d_name (filter eligible entries))) (d_name e) = (if eligible e then 1 else 0)"
proof -
  have inj: "inj_on d_name (set entries)" and "distinct entries"
    using assms(1) by (simp_all add: distinct_map)
  have "distinct (map d_name (filter eligible entries))"
    using assms(1) by (rule distinct_map_filter)
  then have "count (mset (map d_name (filter eligible entries))) (d_name e) =
      (if d_name e \<in> set (map d_name (filter eligible entries)) then 1 else 0)"
    by (simp add: distinct_count_atmost_1)
  moreover have "d_name e \<in> set (map d_name (filter eligible entries)) \<longleftrightarrow> eligible e"
  proof
    assume "d_name e \<in> set (map d_name (filter eligible entries))"
    then obtain e' where "e' \<in> set entries" "eligible e'" "d_name e' = d_name e" by auto
    with inj assms(2) have "e' = e" by (auto dest: inj_onD)
    with \<open>eligible e'\<close> show "eligible e" by simp
  next
    assume "eligible e"
    with assms(2) show "d_name e \<in> set (map d_name (filter eligible entries))" by auto
  qed
  ultimately show ?thesis by simp
qed

lemma length_filter_count: "length (filter (\<lambda>r. f r = n) xs) = count (mset (map f xs)) n"
  by (induction xs) auto

lemma fractional_stamp_not_int: "(3400000000001 / 2 :: real) \<notin> \<int>"
proof
  assume "(3400000000001 / 2 :: real) \<in> \<int>"
  then obtain k :: int where "(3400000000001 / 2 :: real) = of_int k" by (auto elim: Ints_cases)
  then have "(3400000000001 :: real) = of_int (2 * k)" by simp
  then have "(3400000000001 :: int) = 2 * k" by (metis of_int_eq_iff of_int_numeral)
  then show False by presburger
qed

section \<open>The order of the serialized dataset\<close>

text \<open>
  Claim C7: in every document a run writes, the records of the embedded dataset are in
  descending order of modification time: a record at a later position never has a greater
  time stamp than one at an earlier position.
\<close>

theorem dataset_ordered_by_mtime_desc:
  assumes "(fname, doc) \<in> set (written (run fs))" and "i < j" and "j < length (dataJson doc)"
  shows "mtimeMs (dataJson doc ! j) \<le> mtimeMs (dataJson doc ! i)"
proof -
  from assms(1) obtain files0 where
    d: "dataJson doc = JSON_stringify (js_sort (\<lambda>a b. mtimeMs b - mtimeMs a) files0)"
    by (rule written_cases)
  have "sorted_wrt (\<lambda>x y. y \<le> x) (map mtimeMs (dataJson doc))"
    unfolding d using sorted_mtime_desc [of files0] by (simp add: sorted_wrt_map)
  then have "sorted_wrt (\<lambda>a b. mtimeMs b \<le> mtimeMs a) (dataJson doc)"
    by (simp add: sorted_wrt_map)
  with assms(2,3) show ?thesis by (simp add: sorted_wrt_iff_nth_less)
qed

theorem dataset_ordered_by_mtime_desc_witness:
  "(''index.html'', doc_scenario) \<in> set (written (run fs_scenario)) \<and> (0::nat) < 1 \<and>
   1 < length (dataJson doc_scenario) \<and>
   mtimeMs (dataJson doc_scenario ! 1) \<le> mtimeMs (dataJson doc_scenario ! 0)"
proof -
  have 1: "(''index.html'', doc_scenario) \<in> set (written (run fs_scenario))"
    by (simp add: run_scenario)
  have 2: "(0::nat) < 1" by simp
  have 3: "1 < length (dataJson doc_scenario)"
    by (simp add: doc_scenario_def)
  from dataset_ordered_by_mtime_desc [OF 1 2 3] 1 2 3 show ?thesis by simp
qed

section \<open>Exit behaviour\<close>

lemma digits_value: "foldl (\<lambda>v c. 10 * v + ((of_char c :: nat) - 48)) 0 (digits n) = n"
proof (induction n rule: digits.induct)
  case (1 n)
  show ?case
  proof (cases "n < 10")
    case True
    then have "(of_char (char_of (48 + n)) :: nat) = 48 + n"
      by (simp add: of_char_of)
    with True show ?thesis by (subst digits.simps) simp
  next
    case False
    have m: "(of_char (char_of (48 + n mod 10)) :: nat) = 48 + n mod 10"
      by (simp add: of_char_of)
    have "digits n = digits (n div 10) @ [char_of (48 + n mod 10)]"
      using False by (subst digits.simps) simp
    with 1 False m show ?thesis by simp
  qed
qed

lemma digits_2: "digits 2 = ''2''"
  by code_simp

lemma stdout_scenario:
  "stdout (run fs_scenario) =
     [[CHR 0xE2, CHR 0x9C, CHR 0x85] @ '' index.html gerado com 2 arquivo(s).'']"
  by (simp add: run_scenario success_line_def digits_2)

text \<open>
  Claim C5: when listing the directory fails, the run ends with exit code 1, reports that
  error and never calls \<open>writeFile\<close>. When the listing, every \<open>stat\<close> of an entry that
  passed the filters and the write succeed, the run ends with exit code 0, reports no
  error, writes one document named \<open>index.html\<close> and prints one line: the check mark,
  \<open>index.html gerado com\<close>, the decimal number of records of that document's dataset,
  and \<open>arquivo(s).\<close>
\<close>

theorem run_exit_behaviour:
  "(readdir fs = Inl err \<longrightarrow>
      exit_code (run fs) = 1 \<and> stderr (run fs) = [err] \<and> written (run fs) = []) \<and>
   (readdir fs = Inr entries \<and>
    (\<forall>e \<in> set entries. eligible e \<longrightarrow> (\<exists>s. stat fs (d_name e) = Inr s)) \<and>
    writeFile fs ''index.html'' = None \<longrightarrow>
      exit_code (run fs) = 0 \<and> stderr (run fs) = [] \<and>
      (\<exists>doc. written (run fs) = [(''index.html'', doc)] \<and>
             stdout (run fs) =
               [[CHR 0xE2, CHR 0x9C, CHR 0x85] @ '' index.html gerado com '' @
                digits (length (dataJson doc)) @ '' arquivo(s).'']))"
proof (intro conjI impI)
  assume "readdir fs = Inl err"
  then have "run fs = \<lparr>exit_code = 1, stdout = [], stderr = [err], written = []\<rparr>"
    by (rule run_readdir_fail)
  then show "exit_code (run fs) = 1" "stderr (run fs) = [err]" "written (run fs) = []"
    by simp_all
next
  assume a: "readdir fs = Inr entries \<and>
    (\<forall>e \<in> set entries. eligible e \<longrightarrow> (\<exists>s. stat fs (d_name e) = Inr s)) \<and>
    writeFile fs ''index.html'' = None"
  then obtain files0 where "scan_loop (stat fs) entries [] = Inr files0"
    using scan_loop_ok [of entries "stat fs" "[]"] by blast
  with a have r: "run fs = \<lparr>exit_code = 0,
               stdout = [success_line (length (js_sort (\<lambda>a b. mtimeMs b - mtimeMs a) files0))],
               stderr = [],
               written = [(''index.html'',
                 \<lparr>dataJson = JSON_stringify (js_sort (\<lambda>a b. mtimeMs b - mtimeMs a) files0)\<rparr>)]\<rparr>"
    by (intro run_success) auto
  then show "exit_code (run fs) = 0" "stderr (run fs) = []"
    by simp_all
  from r show "\<exists>doc. written (run fs) = [(''index.html'', doc)] \<and>
             stdout (run fs) =
               [[CHR 0xE2, CHR 0x9C, CHR 0x85] @ '' index.html gerado com '' @
                digits (length (dataJson doc)) @ '' arquivo(s).'']"
    by (simp add: success_line_def)
qed

theorem run_exit_behaviour_witness:
  "readdir fs_unreadable = Inl (Errno ''EACCES'') \<and>
   exit_code (run fs_unreadable) = 1 \<and> stderr (run fs_unreadable) = [Errno ''EACCES''] \<and>
   written (run fs_unreadable) = [] \<and>
   readdir fs_scenario = Inr [file_entry ''report.pdf'', file_entry ''photo.PNG'',
     file_entry ''.hidden'', file_entry ''index.html'', \<lparr>d_name = ''sub'', d_kind = Directory\<rparr>] \<and>
   writeFile fs_scenario ''index.html'' = None \<and>
   exit_code (run fs_scenario) = 0 \<and> stderr (run fs_scenario) = [] \<and>
   written (run fs_scenario) = [(''index.html'', doc_scenario)] \<and>
   length (dataJson doc_scenario) = 2 \<and>
   stdout (run fs_scenario) =
     [[CHR 0xE2, CHR 0x9C, CHR 0x85] @ '' index.html gerado com 2 arquivo(s).''] \<and>
   (\<exists>doc. written (run fs_scenario) = [(''index.html'', doc)] \<and>
          stdout (run fs_scenario) =
            [[CHR 0xE2, CHR 0x9C, CHR 0x85] @ '' index.html gerado com '' @
             digits (length (dataJson doc)) @ '' arquivo(s).''])"
proof -
  have 1: "readdir fs_unreadable = Inl (Errno ''EACCES'')"
    by (simp add: fs_unreadable_def)
  note 2 = entries_scenario
  have 3: "\<forall>e \<in> set [file_entry ''report.pdf'', file_entry ''photo.PNG'',
     file_entry ''.hidden'', file_entry ''index.html'', \<lparr>d_name = ''sub'', d_kind = Directory\<rparr>].
      eligible e \<longrightarrow> (\<exists>s. stat fs_scenario (d_name e) = Inr s)"
    by (simp add: fs_scenario_def example_simps)
  have 4: "writeFile fs_scenario ''index.html'' = None"
    by (simp add: fs_scenario_def)
  have 5: "written (run fs_scenario) = [(''index.html'', doc_scenario)]"
    by (simp add: run_scenario)
  have 6: "length (dataJson doc_scenario) = 2"
    by (simp add: doc_scenario_def)
  note 7 = stdout_scenario
  from run_exit_behaviour [of fs_unreadable "Errno ''EACCES''"] 1
  have a: "exit_code (run fs_unreadable) = 1 \<and> stderr (run fs_unreadable) = [Errno ''EACCES''] \<and>
   written (run fs_unreadable) = []" by blast
  from run_exit_behaviour [of fs_scenario _ "[file_entry ''report.pdf'', file_entry ''photo.PNG'',
     file_entry ''.hidden'', file_entry ''index.html'', \<lparr>d_name = ''sub'', d_kind = Directory\<rparr>]"] 2 3 4
  have b: "exit_code (run fs_scenario) = 0 \<and> stderr (run fs_scenario) = [] \<and>
   (\<exists>doc. written (run fs_scenario) = [(''index.html'', doc)] \<and>
          stdout (run fs_scenario) =
            [[CHR 0xE2, CHR 0x9C, CHR 0x85] @ '' index.html gerado com '' @
             digits (length (dataJson doc)) @ '' arquivo(s).''])" by blast
  from 1 2 4 5 6 7 a b show ?thesis by blast
qed

section \<open>Which entries reach the dataset\<close>

text \<open>
  Claim C4: in the dataset of a document the run writes, an entry of the listing (whose
  names are pairwise distinct, as in any directory) has exactly one record of its name if
  it is a regular file, its name is not in \<open>IGNORE\<close> and does not start with a dot, and
  has no record otherwise; the dataset holds no other records.
\<close>

theorem dataset_has_exactly_the_eligible_files:
  assumes "readdir fs = Inr entries" and "distinct (map d_name entries)"
    and "(fname, doc) \<in> set (written (run fs))" and "e \<in> set entries"
  shows "length (filter (\<lambda>r. name r = d_name e) (dataJson doc)) =
           (if isFile e \<and> d_name e \<notin> set IGNORE \<and> \<not> startsWith (d_name e) ''.''
            then 1 else 0) \<and>
         length (dataJson doc) = length (filter eligible entries)"
proof -
  from assms(3) obtain entries' where "readdir fs = Inr entries'" and
    d: "dataJson doc = JSON_stringify (js_sort (\<lambda>a b. mtimeMs b - mtimeMs a)
           (map (\<lambda>e. mk_record e (projr (stat fs (d_name e)))) (filter eligible entries')))"
    by (rule written_cases)
  with assms(1) have [simp]: "entries' = entries" by simp
  let ?files0 = "map (\<lambda>e. mk_record e (projr (stat fs (d_name e)))) (filter eligible entries)"
  have "mset (map name (dataJson doc)) =
      image_mset name (mset (js_sort (\<lambda>a b. mtimeMs b - mtimeMs a) ?files0))"
    using d by simp
  also have "\<dots> = image_mset name (mset ?files0)"
    by (simp only: mset_js_sort)
  also have "\<dots> = mset (map d_name (filter eligible entries))"
    by (simp add: multiset.map_comp o_def)
  finally have "length (filter (\<lambda>r. name r = d_name e) (dataJson doc)) =
      count (mset (map d_name (filter eligible entries))) (d_name e)"
    by (simp add: length_filter_count)
  also have "\<dots> = (if eligible e then 1 else 0)"
    using assms(2,4) by (rule count_names_eligible)
  finally have "length (filter (\<lambda>r. name r = d_name e) (dataJson doc)) =
           (if isFile e \<and> d_name e \<notin> set IGNORE \<and> \<not> startsWith (d_name e) ''.''
            then 1 else 0)"
    by (simp add: eligible_def)
  moreover have "length (dataJson doc) = length (filter eligible entries)"
    using d by (simp add: length_js_sort)
  ultimately show ?thesis by simp
qed

theorem dataset_has_exactly_the_eligible_files_witness:
  "readdir fs_scenario = Inr [file_entry ''report.pdf'', file_entry ''photo.PNG'',
     file_entry ''.hidden'', file_entry ''index.html'', \<lparr>d_name = ''sub'', d_kind = Directory\<rparr>] \<and>
   distinct (map d_name [file_entry ''report.pdf'', file_entry ''photo.PNG'',
     file_entry ''.hidden'', file_entry ''index.html'', \<lparr>d_name = ''sub'', d_kind = Directory\<rparr>]) \<and>
   (''index.html'', doc_scenario) \<in> set (written (run fs_scenario)) \<and>
   file_entry ''.hidden'' \<in> set [file_entry ''report.pdf'', file_entry ''photo.PNG'',
     file_entry ''.hidden'', file_entry ''index.html'', \<lparr>d_name = ''sub'', d_kind = Directory\<rparr>] \<and>
   length (filter (\<lambda>r. name r = ''report.pdf'') (dataJson doc_scenario)) = 1 \<and>
   length (filter (\<lambda>r. name r = ''.hidden'') (dataJson doc_scenario)) = 0 \<and>
   length (filter (\<lambda>r. name r = ''index.html'') (dataJson doc_scenario)) = 0 \<and>
   length (filter (\<lambda>r. name r = ''sub'') (dataJson doc_scenario)) = 0"
proof -
  let ?es = "[file_entry ''report.pdf'', file_entry ''photo.PNG'',
     file_entry ''.hidden'', file_entry ''index.html'', \<lparr>d_name = ''sub'', d_kind = Directory\<rparr>]"
  note 1 = entries_scenario
  have 2: "distinct (map d_name ?es)" by (simp add: file_entry_def)
  have 3: "(''index.html'', doc_scenario) \<in> set (written (run fs_scenario))"
    by (simp add: run_scenario)
  have a: "length (filter (\<lambda>r. name r = d_name (file_entry ''report.pdf'')) (dataJson doc_scenario)) = 1"
    using dataset_has_exactly_the_eligible_files [OF 1 2 3, of "file_entry ''report.pdf''"]
    by (simp add: example_simps)
  have b: "length (filter (\<lambda>r. name r = d_name (file_entry ''.hidden'')) (dataJson doc_scenario)) = 0"
    using dataset_has_exactly_the_eligible_files [OF 1 2 3, of "file_entry ''.hidden''"]
    by (simp add: example_simps)
  have c: "length (filter (\<lambda>r. name r = d_name (file_entry ''index.html'')) (dataJson doc_scenario)) = 0"
    using dataset_has_exactly_the_eligible_files [OF 1 2 3, of "file_entry ''index.html''"]
    by (simp add: example_simps)
  have d: "length (filter (\<lambda>r. name r = d_name \<lparr>d_name = ''sub'', d_kind = Directory\<rparr>) (dataJson doc_scenario)) = 0"
    using dataset_has_exactly_the_eligible_files [OF 1 2 3, of "\<lparr>d_name = ''sub'', d_kind = Directory\<rparr>"]
    by (simp add: example_simps)
  from 1 2 3 a b c d show ?thesis by (simp add: file_entry_def)
qed

section \<open>Invariants of the records\<close>

text \<open>
  Claim C6, as the code has it: for a listing whose names are non-empty, every record of
  a written dataset has a non-empty name and an extension without upper-case letters;
  its preview is one of the seven kinds when the extension is neither \<open>constructor\<close>
  nor \<open>__proto__\<close>; and its size and time stamp are the numbers \<open>stat\<close> reported for the
  entry of that name, the time stamp being any number, not only a whole one.
\<close>

theorem record_invariants:
  assumes "readdir fs = Inr entries" and "\<forall>e \<in> set entries. d_name e \<noteq> []"
    and "(fname, doc) \<in> set (written (run fs))" and "r \<in> set (dataJson doc)"
  shows "name r \<noteq> [] \<and> is_lower_case (ext r) \<and>
         (ext r \<noteq> ''constructor'' \<and> ext r \<noteq> ''__proto__'' \<longrightarrow>
            (\<exists>k \<in> set kinds. preview r = Str k)) \<and>
         (\<exists>e \<in> set entries. \<exists>s. name r = d_name e \<and> stat fs (d_name e) = Inr s \<and>
            mtimeMs r = st_mtimeMs s \<and> size_bytes r = st_size s)"
proof -
  from assms(3) obtain entries' where "readdir fs = Inr entries'" and
    ok: "\<forall>e \<in> set entries'. eligible e \<longrightarrow> (\<exists>s. stat fs (d_name e) = Inr s)" and
    d: "dataJson doc = JSON_stringify (js_sort (\<lambda>a b. mtimeMs b - mtimeMs a)
           (map (\<lambda>e. mk_record e (projr (stat fs (d_name e)))) (filter eligible entries')))"
    by (rule written_cases)
  with assms(1) have [simp]: "entries' = entries" by simp
  from assms(4) d obtain e where e: "e \<in> set entries" "eligible e"
    and r: "r = (mk_record e (projr (stat fs (d_name e))))
                  \<lparr>preview := json_value (preview (mk_record e (projr (stat fs (d_name e)))))\<rparr>"
    by (auto simp: JSON_stringify_def set_js_sort)
  from ok e obtain s where s: "stat fs (d_name e) = Inr s" by auto
  have 1: "name r \<noteq> []" using r e assms(2) by simp
  have 2: "is_lower_case (ext r)" using r by (simp add: is_lower_case_asExt)
  have 3: "\<exists>k \<in> set kinds. preview r = Str k"
    if "ext r \<noteq> ''constructor'' \<and> ext r \<noteq> ''__proto__''"
  proof -
    from that r have "asExt (d_name e) \<noteq> ''constructor''" "asExt (d_name e) \<noteq> ''__proto__''"
      by simp_all
    from previewOf_kinds [OF is_lower_case_asExt this] obtain k
      where "k \<in> set kinds" "previewOf (asExt (d_name e)) = Str k" by blast
    with r show ?thesis by auto
  qed
  have 4: "\<exists>e \<in> set entries. \<exists>s. name r = d_name e \<and> stat fs (d_name e) = Inr s \<and>
            mtimeMs r = st_mtimeMs s \<and> size_bytes r = st_size s"
    using e s r by (intro bexI [of _ e] exI [of _ s]) simp_all
  from 1 2 3 4 show ?thesis by blast
qed

theorem record_invariants_witness:
  "readdir fs_scenario = Inr [file_entry ''report.pdf'', file_entry ''photo.PNG'',
     file_entry ''.hidden'', file_entry ''index.html'', \<lparr>d_name = ''sub'', d_kind = Directory\<rparr>] \<and>
   (''index.html'', doc_scenario) \<in> set (written (run fs_scenario)) \<and>
   dataJson doc_scenario ! 0 \<in> set (dataJson doc_scenario) \<and>
   name (dataJson doc_scenario ! 0) = ''photo.PNG'' \<and>
   ext (dataJson doc_scenario ! 0) = ''png'' \<and>
   name (dataJson doc_scenario ! 0) \<noteq> [] \<and>
   is_lower_case (ext (dataJson doc_scenario ! 0)) \<and>
   (\<exists>k \<in> set kinds. preview (dataJson doc_scenario ! 0) = Str k)"
proof -
  let ?es = "[file_entry ''report.pdf'', file_entry ''photo.PNG'',
     file_entry ''.hidden'', file_entry ''index.html'', \<lparr>d_name = ''sub'', d_kind = Directory\<rparr>]"
  note 1 = entries_scenario
  have 2: "\<forall>e \<in> set ?es. d_name e \<noteq> []" by (simp add: file_entry_def)
  have 3: "(''index.html'', doc_scenario) \<in> set (written (run fs_scenario))"
    by (simp add: run_scenario)
  have 4: "dataJson doc_scenario ! 0 \<in> set (dataJson doc_scenario)"
    by (simp add: doc_scenario_def JSON_stringify_def)
  have 5: "name (dataJson doc_scenario ! 0) = ''photo.PNG''"
    by (simp add: doc_scenario_def JSON_stringify_def file_entry_def)
  have 6: "ext (dataJson doc_scenario ! 0) = ''png''"
    by (simp add: doc_scenario_def JSON_stringify_def file_entry_def asExt_photo)
  from record_invariants [OF 1 2 3 4] 1 3 4 5 6 show ?thesis by simp
qed

text \<open>
  Claim C6 as stated fails: for the single file \<open>x.constructor\<close> with the time stamp
  1700000000000.5 ms, the record of the written dataset has no preview kind at all and a
  time stamp that is not an integer.
\<close>

theorem record_invariants_counterexample:
  "readdir fs_constructor = Inr [file_entry ''x.constructor''] \<and>
   written (run fs_constructor) =
     [(''index.html'',
       \<lparr>dataJson = [\<lparr>name = ''x.constructor'', ext = ''constructor'', size_bytes = 10,
                     mtimeMs = 3400000000001 / 2, preview = Undefined\<rparr>]\<rparr>)] \<and>
   Undefined \<notin> Str ` set kinds \<and> (3400000000001 / 2 :: real) \<notin> \<int>"
  by (simp add: fractional_stamp_not_int run_def main_def fs_constructor_def example_simps
      Let_def mk_record_def asExt_constructor previewOf_def PREVIEW_get_def PREVIEW_def
      Object_prototype_def js_or_def truthy_def JSON_stringify_def json_value_def image_iff)

section \<open>The filters of the client\<close>

lemma startsWith_iff: "startsWith s p \<longleftrightarrow> (\<exists>v. s = p @ v)"
  by (induction s p rule: startsWith.induct) auto

lemma str_includes_iff: "str_includes s t \<longleftrightarrow> (\<exists>u v. s = u @ t @ v)"
proof (induction s)
  case Nil
  then show ?case by simp
next
  case (Cons c cs)
  have "(\<exists>u v. c # cs = u @ t @ v) \<longleftrightarrow> (\<exists>v. c # cs = t @ v) \<or> (\<exists>u v. cs = u @ t @ v)"
  proof
    assume "\<exists>u v. c # cs = u @ t @ v"
    then obtain u v where uv: "c # cs = u @ t @ v" by blast
    show "(\<exists>v. c # cs = t @ v) \<or> (\<exists>u v. cs = u @ t @ v)"
    proof (cases u)
      case Nil
      with uv show ?thesis by auto
    next
      case (Cons a u')
      with uv have "cs = u' @ t @ v" by simp
      then show ?thesis by blast
    qed
  next
    assume "(\<exists>v. c # cs = t @ v) \<or> (\<exists>u v. cs = u @ t @ v)"
    then show "\<exists>u v. c # cs = u @ t @ v"
    proof
      assume "\<exists>v. c # cs = t @ v"
      then obtain v where "c # cs = [] @ t @ v" by auto
      then show ?thesis by blast
    next
      assume "\<exists>u v. cs = u @ t @ v"
      then obtain u v where "c # cs = (c # u) @ t @ v" by auto
      then show ?thesis by blast
    qed
  qed
  with Cons show ?case by (simp add: startsWith_iff)
qed

lemma set_applyFilters:
  "set (applyFilters lc q k sorter FILES) = set (kind_filter k (text_filter q FILES))"
  by (simp add: applyFilters_def sort_items_def set_js_sort)

text \<open>
  Claim C8, as the code has it: a record stays in the list after the text filter exactly
  when the query, lower-cased and trimmed of surrounding white space, is empty or occurs
  in the lower-cased name or extension; it stays after the kind filter exactly when the
  selection is empty (all kinds) or equals the record's preview kind.
\<close>

theorem filters_membership:
  "(f \<in> set (text_filter q items) \<longleftrightarrow>
      f \<in> set items \<and>
      (trim (toLowerCase q) = [] \<or>
       str_includes (toLowerCase (name f)) (trim (toLowerCase q)) \<or>
       str_includes (toLowerCase (ext f)) (trim (toLowerCase q)))) \<and>
   (f \<in> set (kind_filter k items) \<longleftrightarrow> f \<in> set items \<and> (k = [] \<or> preview f = Str k))"
  by (auto simp: text_filter_def kind_filter_def kind_pred_def Let_def)

text \<open>
  Claim C8 as stated fails: the query of one space is not empty and occurs in neither
  \<open>a.txt\<close> nor \<open>txt\<close>, yet the record passes the text filter.
\<close>

theorem text_filter_counterexample:
  "text_filter '' '' [rec_notes] = [rec_notes] \<and> \<not> spec_passes_text '' '' rec_notes"
  by (simp add: text_filter_def spec_passes_text_def rec_notes_def trim_def is_space_def
      toLowerCase_def lower_char_def is_upper_def)

section \<open>Reversing a descending sort\<close>

lemma js_sort_rev_eq:
  assumes tot: "\<forall>a\<in>set xs. \<forall>b\<in>set xs. cmp a b \<le> 0 \<or> cmp b a \<le> 0"
    and trans: "\<forall>a\<in>set xs. \<forall>b\<in>set xs. \<forall>c\<in>set xs.
                  cmp a b \<le> 0 \<longrightarrow> cmp b c \<le> 0 \<longrightarrow> cmp a c \<le> 0"
    and anti: "\<forall>a\<in>set xs. \<forall>b\<in>set xs. cmp a b \<le> 0 \<longrightarrow> cmp b a \<le> 0 \<longrightarrow> a = b"
  shows "rev (js_sort (\<lambda>a b. cmp b a) xs) = js_sort cmp xs"
proof -
  have tot': "\<forall>a\<in>set xs. \<forall>b\<in>set xs. cmp b a \<le> 0 \<or> cmp a b \<le> 0"
    using tot by blast
  have trans': "\<forall>a\<in>set xs. \<forall>b\<in>set xs. \<forall>c\<in>set xs.
                  cmp b a \<le> 0 \<longrightarrow> cmp c b \<le> 0 \<longrightarrow> cmp c a \<le> 0"
    using trans by blast
  have "sorted_wrt (\<lambda>a b. cmp b a \<le> 0) (js_sort (\<lambda>a b. cmp b a) xs)"
    using sorted_js_sort [where cmp = "\<lambda>a b. cmp b a" and A = "set xs" and xs = xs, OF tot' trans']
    by simp
  then have 1: "sorted_wrt (\<lambda>a b. cmp a b \<le> 0) (rev (js_sort (\<lambda>a b. cmp b a) xs))"
    by (simp add: sorted_wrt_rev)
  have 2: "sorted_wrt (\<lambda>a b. cmp a b \<le> 0) (js_sort cmp xs)"
    using sorted_js_sort [where cmp = cmp and A = "set xs" and xs = xs, OF tot trans] by simp
  have 3: "mset (rev (js_sort (\<lambda>a b. cmp b a) xs)) = mset (js_sort cmp xs)"
    by (simp add: mset_js_sort)
  have 4: "set (rev (js_sort (\<lambda>a b. cmp b a) xs)) \<subseteq> set xs"
    by (simp add: set_js_sort)
  have 5: "\<And>a b. a \<in> set xs \<Longrightarrow> b \<in> set xs \<Longrightarrow> cmp a b \<le> 0 \<Longrightarrow> cmp b a \<le> 0 \<Longrightarrow> a = b"
    using anti by blast
  from sorted_wrt_unique [where A = "set xs" and R = "\<lambda>a b. cmp a b \<le> 0", OF 5 1 2 3 4]
  show ?thesis by simp
qed

lemma key_sort_rev_eq:
  fixes key :: "'a \<Rightarrow> real"
  assumes "distinct (map key xs)"
  shows "rev (js_sort (\<lambda>a b. key b - key a) xs) = js_sort (\<lambda>a b. key a - key b) xs"
proof -
  from assms have inj: "inj_on key (set xs)" by (simp add: distinct_map)
  have "\<forall>a\<in>set xs. \<forall>b\<in>set xs. key a - key b \<le> 0 \<longrightarrow> key b - key a \<le> 0 \<longrightarrow> a = b"
  proof (intro ballI impI)
    fix a b assume "a \<in> set xs" "b \<in> set xs" "key a - key b \<le> 0" "key b - key a \<le> 0"
    then have "key a = key b" by simp
    with inj \<open>a \<in> set xs\<close> \<open>b \<in> set xs\<close> show "a = b" by (auto dest: inj_onD)
  qed
  then show ?thesis
    by (intro js_sort_rev_eq [where cmp = "\<lambda>a b. key a - key b"]) auto
qed

lemma name_sort_rev_eq:
  assumes d: "distinct (map name items)" and o: "orders_names lc (name ` set items)"
  shows "rev (js_sort (\<lambda>a b. lc (name b) (name a)) items) =
         js_sort (\<lambda>a b. lc (name a) (name b)) items"
proof -
  from d have inj: "inj_on name (set items)" by (simp add: distinct_map)
  from o have o1: "\<forall>a\<in>set items. \<forall>b\<in>set items.
      sgn (lc (name a) (name b)) = - sgn (lc (name b) (name a))"
    and o2: "\<forall>a\<in>set items. \<forall>b\<in>set items. \<forall>c\<in>set items.
      lc (name a) (name b) \<le> 0 \<longrightarrow> lc (name b) (name c) \<le> 0 \<longrightarrow> lc (name a) (name c) \<le> 0"
    and o3: "\<forall>a\<in>set items. \<forall>b\<in>set items. lc (name a) (name b) = 0 \<longrightarrow> name a = name b"
    unfolding orders_names_def by blast+
  have sg: "sgn (lc (name a) (name b)) = - sgn (lc (name b) (name a))"
    if "a \<in> set items" "b \<in> set items" for a b
    using o1 that by blast
  have eq: "name a = name b"
    if "a \<in> set items" "b \<in> set items" "lc (name a) (name b) = 0" for a b
    using o3 that by blast
  have tot: "\<forall>a\<in>set items. \<forall>b\<in>set items. lc (name a) (name b) \<le> 0 \<or> lc (name b) (name a) \<le> 0"
  proof (intro ballI)
    fix a b assume "a \<in> set items" "b \<in> set items"
    from sg [OF this] show "lc (name a) (name b) \<le> 0 \<or> lc (name b) (name a) \<le> 0"
      by (simp add: sgn_real_def split: if_splits)
  qed
  note trans = o2
  have anti: "\<forall>a\<in>set items. \<forall>b\<in>set items.
      lc (name a) (name b) \<le> 0 \<longrightarrow> lc (name b) (name a) \<le> 0 \<longrightarrow> a = b"
  proof (intro ballI impI)
    fix a b assume ab: "a \<in> set items" "b \<in> set items"
      and le: "lc (name a) (name b) \<le> 0" "lc (name b) (name a) \<le> 0"
    from sg [OF ab] le have "lc (name a) (name b) = 0"
      by (simp add: sgn_real_def split: if_splits)
    from eq [OF ab this] inj ab show "a = b" by (auto dest: inj_onD)
  qed
  from js_sort_rev_eq [where cmp = "\<lambda>a b. lc (name a) (name b)", OF tot trans anti]
  show ?thesis .
qed

lemma comparator_simps:
  "comparator lc ''mtime-asc'' = (\<lambda>a b. mtimeMs a - mtimeMs b)"
  "comparator lc ''mtime-desc'' = (\<lambda>a b. mtimeMs b - mtimeMs a)"
  "comparator lc ''name-asc'' = (\<lambda>a b. lc (name a) (name b))"
  "comparator lc ''name-desc'' = (\<lambda>a b. lc (name b) (name a))"
  "comparator lc ''size-asc'' = (\<lambda>a b. real (size_bytes a) - real (size_bytes b))"
  "comparator lc ''size-desc'' = (\<lambda>a b. real (size_bytes b) - real (size_bytes a))"
  by (simp_all add: comparator_def fun_eq_iff)

text \<open>
  Claim C9, as the code has it: for records with pairwise distinct sizes, the list sorted
  by \<open>size-desc\<close> and reversed is the list sorted by \<open>size-asc\<close>; likewise for the two
  \<open>mtime\<close> keys when the time stamps are pairwise distinct; and for the two \<open>name\<close> keys
  when the names are pairwise distinct and the locale's comparison, antisymmetric and
  transitive on them, gives 0 for no two different names among them.
\<close>

theorem desc_reversed_is_asc:
  "(distinct (map size_bytes items) \<longrightarrow>
      rev (sort_items lc ''size-desc'' items) = sort_items lc ''size-asc'' items) \<and>
   (distinct (map mtimeMs items) \<longrightarrow>
      rev (sort_items lc ''mtime-desc'' items) = sort_items lc ''mtime-asc'' items) \<and>
   (distinct (map name items) \<and> orders_names lc (name ` set items) \<longrightarrow>
      rev (sort_items lc ''name-desc'' items) = sort_items lc ''name-asc'' items)"
proof (intro conjI impI)
  assume "distinct (map size_bytes items)"
  then have "distinct (map (\<lambda>f. real (size_bytes f)) items)"
    by (simp add: distinct_map inj_on_def)
  from key_sort_rev_eq [OF this]
  show "rev (sort_items lc ''size-desc'' items) = sort_items lc ''size-asc'' items"
    by (simp add: sort_items_def comparator_simps)
next
  assume "distinct (map mtimeMs items)"
  from key_sort_rev_eq [OF this]
  show "rev (sort_items lc ''mtime-desc'' items) = sort_items lc ''mtime-asc'' items"
    by (simp add: sort_items_def comparator_simps)
next
  assume "distinct (map name items) \<and> orders_names lc (name ` set items)"
  then have "rev (js_sort (\<lambda>a b. lc (name b) (name a)) items) =
         js_sort (\<lambda>a b. lc (name a) (name b)) items"
    by (intro name_sort_rev_eq) simp_all
  then show "rev (sort_items lc ''name-desc'' items) = sort_items lc ''name-asc'' items"
    by (simp add: sort_items_def comparator_simps)
qed

lemma orders_names_by_length:
  "orders_names by_length (name ` set three_records)"
  by (simp add: orders_names_def three_records_def by_length_def)

lemma sort_items_example:
  "sort_items by_length ''size-asc'' three_records =
     [three_records ! 1, three_records ! 2, three_records ! 0] \<and>
   sort_items by_length ''mtime-asc'' three_records =
     [three_records ! 0, three_records ! 2, three_records ! 1] \<and>
   sort_items by_length ''name-asc'' three_records =
     [three_records ! 1, three_records ! 0, three_records ! 2]"
  by (simp add: sort_items_def comparator_simps three_records_def by_length_def)

theorem desc_reversed_is_asc_witness:
  "distinct (map size_bytes three_records) \<and> distinct (map mtimeMs three_records) \<and>
   distinct (map name three_records) \<and> orders_names by_length (name ` set three_records) \<and>
   rev (sort_items by_length ''size-desc'' three_records) =
     [three_records ! 1, three_records ! 2, three_records ! 0] \<and>
   sort_items by_length ''size-asc'' three_records =
     [three_records ! 1, three_records ! 2, three_records ! 0] \<and>
   rev (sort_items by_length ''mtime-desc'' three_records) =
     [three_records ! 0, three_records ! 2, three_records ! 1] \<and>
   sort_items by_length ''mtime-asc'' three_records =
     [three_records ! 0, three_records ! 2, three_records ! 1] \<and>
   rev (sort_items by_length ''name-desc'' three_records) =
     [three_records ! 1, three_records ! 0, three_records ! 2] \<and>
   sort_items by_length ''name-asc'' three_records =
     [three_records ! 1, three_records ! 0, three_records ! 2]"
proof -
  have 1: "distinct (map size_bytes three_records)" by (simp add: three_records_def)
  have 2: "distinct (map mtimeMs three_records)" by (simp add: three_records_def)
  have 3: "distinct (map name three_records)" by (simp add: three_records_def)
  note 4 = orders_names_by_length
  from desc_reversed_is_asc [of three_records by_length] 1 2 3 4
  have "rev (sort_items by_length ''size-desc'' three_records) =
          sort_items by_length ''size-asc'' three_records \<and>
        rev (sort_items by_length ''mtime-desc'' three_records) =
          sort_items by_length ''mtime-asc'' three_records \<and>
        rev (sort_items by_length ''name-desc'' three_records) =
          sort_items by_length ''name-asc'' three_records"
    by blast
  with sort_items_example 1 2 3 4 show ?thesis by simp
qed

section \<open>Names that compare equal\<close>

lemma cmp_units_antisym: "cmp_units b a = - cmp_units a b"
  by (induction a b rule: cmp_units.induct) auto

lemma cmp_units_trans:
  "cmp_units a b \<le> 0 \<Longrightarrow> cmp_units b c \<le> 0 \<Longrightarrow> cmp_units a c \<le> 0"
proof (induction a b arbitrary: c rule: cmp_units.induct)
  case 1
  then show ?case by simp
next
  case (2 b bs)
  then show ?case by (cases c) auto
next
  case (3 a as)
  then show ?case by simp
next
  case (4 a as b bs)
  show ?case
  proof (cases c)
    case Nil
    with 4 show ?thesis by simp
  next
    case (Cons x xs)
    with "4.prems" "4.IH" [of xs] show ?thesis
      by (auto split: if_splits)
  qed
qed

text \<open>\<open>lc_ign\<close> is antisymmetric and transitive on all strings, as a comparison must be.\<close>

lemma lc_ign_consistent:
  "sgn (lc_ign a b) = - sgn (lc_ign b a) \<and>
   (lc_ign a b \<le> 0 \<longrightarrow> lc_ign b c \<le> 0 \<longrightarrow> lc_ign a c \<le> 0)"
proof
  have "lc_ign b a = - lc_ign a b"
    unfolding lc_ign_def by (rule cmp_units_antisym)
  then show "sgn (lc_ign a b) = - sgn (lc_ign b a)"
    by (simp add: sgn_minus)
  show "lc_ign a b \<le> 0 \<longrightarrow> lc_ign b c \<le> 0 \<longrightarrow> lc_ign a c \<le> 0"
    unfolding lc_ign_def by (intro impI) (rule cmp_units_trans)
qed

text \<open>
  Claim C9 as stated fails for the name keys: the names \<open>a\<close> and \<open>a\<close> followed by a soft
  hyphen are distinct, the comparison gives 0 for them, so the stable sort leaves the two
  records in their order under \<open>name-asc\<close> and under \<open>name-desc\<close> alike, and the
  reversed descending list is not the ascending one.
\<close>

theorem name_reversal_counterexample:
  "distinct (map name two_records) \<and>
   sort_items lc_ign ''name-asc'' two_records = two_records \<and>
   sort_items lc_ign ''name-desc'' two_records = two_records \<and>
   rev (sort_items lc_ign ''name-desc'' two_records) \<noteq>
     sort_items lc_ign ''name-asc'' two_records"
  by (simp add: sort_items_def comparator_simps two_records_def lc_ign_def)

end
